theory Spec2Isabelle
  imports Complex_Main "HOL-Library.Word" "HOL-Library.Log_Nat" "HOL-Library.Multiset"
begin

unbundle bit_operations_syntax

section \<open>Values of the engine\<close>

text \<open>
  A JavaScript string is a sequence of UTF-16 code units: \<open>str.length\<close> counts them and
  \<open>str.charCodeAt i\<close> reads one.  A JavaScript \<open>number\<close> is modelled as a rational: every
  finite double is one, and \<open>NaN\<close> and the infinities are outside the model.  Arithmetic on
  numbers is exact here; the places where a double would round are named where they occur.
\<close>

type_synonym jsstring = "16 word list"
type_synonym number = rat

definition lit :: "string \<Rightarrow> jsstring" where
  "lit s = map (\<lambda>c. of_nat (of_char c)) s"

section \<open>seedRng: the deterministic stream generator\<close>

text \<open>
  \<open>xmur3\<close> folds the seed into a 32-bit accumulator \<open>h\<close>; \<open>Math.imul\<close> is the product of
  32-bit words, \<open>(h << 13) | (h >>> 19)\<close> works on the 32-bit value of \<open>h\<close>.  The function
  returned by \<open>xmur3\<close> closes over \<open>h\<close>: \<open>xmur3_next\<close> takes \<open>h\<close> and returns the output
  (as an unsigned value, \<open>h >>> 0\<close>) with the new \<open>h\<close>.
\<close>

definition xmur3_step :: "32 word \<Rightarrow> 16 word \<Rightarrow> 32 word" where
  "xmur3_step h c =
     (let h1 = (h XOR ucast c) * 3432918353
      in push_bit 13 h1 OR drop_bit 19 h1)"

definition xmur3 :: "jsstring \<Rightarrow> 32 word" where
  "xmur3 str = foldl xmur3_step (1779033703 XOR of_nat (length str)) str"

definition xmur3_next :: "32 word \<Rightarrow> int \<times> 32 word" where
  "xmur3_next h =
     (let h1 = (h XOR drop_bit 16 h) * 2246822507;
          h2 = (h1 XOR drop_bit 13 h1) * 3266489909;
          h3 = h2 XOR drop_bit 16 h2
      in (uint h3, h3))"

text \<open>
  \<open>mulberry32\<close> closes over the number \<open>a\<close>.  The statement \<open>a += 0x6D2B79F5\<close> is an
  addition of doubles and is not wrapped to 32 bits: the sum is exact below \<open>2^53\<close> and is
  rounded to the nearest double (ties to even) above.  The bit operations that follow read
  \<open>a\<close> modulo \<open>2^32\<close>.  Since \<open>a\<close> is always an integer, the state is an \<open>int\<close>.
\<close>

definition roundDouble :: "int \<Rightarrow> int" where
  "roundDouble n =
     (if n < 2 ^ 53 then n
      else let q = 2 ^ (nat (bitlen n) - 53); m = n div q; r = n mod q
           in if 2 * r < q \<or> (2 * r = q \<and> even m) then m * q else (m + 1) * q)"

definition mulberry32 :: "int \<Rightarrow> number \<times> int" where
  "mulberry32 a =
     (let a' = roundDouble (a + 0x6D2B79F5);
          t0 = (of_int a' :: 32 word);
          t1 = (t0 XOR drop_bit 15 t0) * (t0 OR 1);
          t2 = t1 XOR (t1 + (t1 XOR drop_bit 7 t1) * (t1 OR 61))
      in (of_int (uint (t2 XOR drop_bit 14 t2)) / 4294967296, a'))"

text \<open>
  \<open>createDeterministicRng\<close> returns an object whose two methods share the closure of
  \<open>mulberry32\<close>; the generator is therefore its state \<open>a\<close>, and each method takes the state
  and returns its result with the new state.  \<open>rand() * maxExclusive\<close> is a product of
  doubles; it is exact while \<open>maxExclusive < 2^21\<close>.
\<close>

definition createDeterministicRng :: "jsstring \<Rightarrow> int" where
  "createDeterministicRng seed = fst (xmur3_next (xmur3 seed))"

definition rng_next :: "int \<Rightarrow> number \<times> int" where
  "rng_next g = mulberry32 g"

definition nextInt :: "number \<Rightarrow> int \<Rightarrow> number \<times> int" where
  "nextInt maxExclusive g =
     (if maxExclusive \<le> 0 then (0, g)
      else let (r, g') = mulberry32 g in (of_int \<lfloor>r * maxExclusive\<rfloor>, g'))"

text \<open>The generator after \<open>k\<close> draws.\<close>

definition after_draws :: "nat \<Rightarrow> int \<Rightarrow> int" where
  "after_draws k g = ((\<lambda>s. snd (rng_next s)) ^^ k) g"

section \<open>types: the records of the engine\<close>

text \<open>
  The records keep the field names of \<open>types.ts\<close>; where two interfaces share a field
  name the earlier record's field is written with its record name
  (\<open>FighterState.hp\<close>).  The fields \<open>id\<close>, \<open>round\<close> and \<open>log\<close> carry a prime.  The
  string unions \<open>"A" | "B"\<close> and \<open>"A" | "B" | "DRAW"\<close> are datatypes.
\<close>

datatype team = TeamA | TeamB

datatype winner = WinA | WinB | DRAW

record CharacterSnapshot =
  id' :: jsstring
  name :: jsstring
  hpBefore :: number
  hpAfter :: number

record FighterState =
  id' :: jsstring
  name :: jsstring
  hp :: number
  maxHp :: number
  alive :: bool

record FinalState =
  teamA :: "FighterState list"
  teamB :: "FighterState list"

record BattleEvent =
  round' :: nat
  actorTeam :: team
  actor :: CharacterSnapshot
  target :: CharacterSnapshot
  damage :: number
  isCrit :: bool
  description :: jsstring

record BattleConfig =
  seed :: jsstring
  maxRounds :: number

record BattleResult =
  config :: BattleConfig
  winner :: winner
  rounds :: nat
  log' :: "BattleEvent list"
  finalState :: FinalState
  logHash :: jsstring

record Character =
  id' :: jsstring
  name :: jsstring
  maxHp :: number
  attack :: number
  defense :: number
  speed :: number
  critChance :: number
  skillMultiplier :: number

section \<open>battleEngine\<close>

record InternalFighter =
  base :: Character
  hp :: number
  alive :: bool

record BattleTeams =
  teamA :: "InternalFighter list"
  teamB :: "InternalFighter list"

text \<open>
  The routines of the host that the engine calls and the repository does not contain are
  parameters of the model: the conversion of a number to a string (in the template literal
  of the description), \<open>JSON.stringify\<close> on a log, and
  \<open>crypto.createHash("sha256").update(json, "utf8").digest()\<close> as a 256-bit value.
\<close>

record Host =
  Number_toString :: "number \<Rightarrow> jsstring"
  JSON_stringify :: "BattleEvent list \<Rightarrow> jsstring"
  sha256_utf8 :: "jsstring \<Rightarrow> 256 word"

text \<open>
  The variables of \<open>simulateBattle\<close> that its loops update: the generator, the teams and
  the log.
\<close>

record Sim =
  rng :: int
  teams :: BattleTeams
  log' :: "BattleEvent list"

definition cloneTeams :: "Character list \<Rightarrow> Character list \<Rightarrow> BattleTeams" where
  "cloneTeams tA tB =
     \<lparr>teamA = map (\<lambda>c. \<lparr>base = c, hp = maxHp c, alive = True\<rparr>) tA,
      teamB = map (\<lambda>c. \<lparr>base = c, hp = maxHp c, alive = True\<rparr>) tB\<rparr>"

definition snapshotFighter :: "InternalFighter \<Rightarrow> FighterState" where
  "snapshotFighter f =
     \<lparr>FighterState.id' = Character.id' (base f),
      FighterState.name = Character.name (base f),
      FighterState.hp = hp f,
      FighterState.maxHp = maxHp (base f),
      FighterState.alive = alive f\<rparr>"

text \<open>
  An object of a team is known by its position in the team: the teams are never resized or
  reordered.  \<open>living\<close> holds the positions in \<open>opponents\<close> of the filtered objects, so
  that the caller can update the object chosen.  \<open>living[idx]\<close> is \<open>undefined\<close> when
  \<open>idx\<close> is not an index of the array.
\<close>

definition js_index :: "'a list \<Rightarrow> number \<Rightarrow> 'a option" where
  "js_index xs v =
     (if 0 \<le> v \<and> of_int \<lfloor>v\<rfloor> = v \<and> nat \<lfloor>v\<rfloor> < length xs then Some (xs ! nat \<lfloor>v\<rfloor>)
      else None)"

definition chooseTarget :: "int \<Rightarrow> InternalFighter list \<Rightarrow> nat option \<times> int" where
  "chooseTarget g opponents =
     (let living = filter (\<lambda>j. alive (opponents ! j)) [0..<length opponents]
      in if length living = 0 then (None, g)
         else let (idx, g') = nextInt (of_nat (length living)) g
              in (js_index living idx, g'))"

definition computeDamage ::
  "int \<Rightarrow> InternalFighter \<Rightarrow> InternalFighter \<Rightarrow> (number \<times> bool) \<times> int" where
  "computeDamage g attacker defender =
     (let base0 = max 1 (attack (base attacker) - defense (base defender) * 0.5);
          (skillRoll, g1) = rng_next g;
          useSkill = (skillRoll < 0.35);
          (critRoll, g2) = rng_next g1;
          isCrit = (critRoll < critChance (base attacker));
          skillMult = (if useSkill then skillMultiplier (base attacker) else 1.0);
          (varRoll, g3) = rng_next g2;
          variance = 0.9 + varRoll * 0.2;
          dmg = base0 * skillMult * variance;
          dmg1 = (if isCrit then dmg * 1.7 else dmg);
          final = max 1 (of_int \<lfloor>dmg1\<rfloor>)
      in ((final, isCrit), g3))"

definition allDead :: "InternalFighter list \<Rightarrow> bool" where
  "allDead tm = list_all (\<lambda>f. \<not> alive f) tm"

definition digestHex :: "256 word \<Rightarrow> jsstring" where
  "digestHex w =
     map (\<lambda>i. lit ''0123456789abcdef'' ! unat (drop_bit (4 * i) w AND 15)) (rev [0..<64])"

definition computeLogHash :: "Host \<Rightarrow> BattleEvent list \<Rightarrow> jsstring" where
  "computeLogHash h lg = digestHex (sha256_utf8 h (JSON_stringify h lg))"

subsection \<open>Turn order\<close>

text \<open>
  An entry \<open>{fighter, team}\<close> of the array \<open>fighters\<close> is the pair of the fighter's position
  in its team and the team's tag.  The entries that the engine builds (\<open>collectFighters\<close>)
  hold positions of their team; nothing is said of \<open>fighterOf\<close> at any other position.
\<close>

type_synonym entry = "nat \<times> team"

definition teamOf :: "team \<Rightarrow> BattleTeams \<Rightarrow> InternalFighter list" where
  "teamOf t ts = (case t of TeamA \<Rightarrow> teamA ts | TeamB \<Rightarrow> teamB ts)"

definition fighterOf :: "BattleTeams \<Rightarrow> entry \<Rightarrow> InternalFighter" where
  "fighterOf ts e = teamOf (snd e) ts ! fst e"

definition collectFighters :: "BattleTeams \<Rightarrow> entry list" where
  "collectFighters ts =
     map (\<lambda>i. (i, TeamA)) (filter (\<lambda>i. alive (teamA ts ! i)) [0..<length (teamA ts)]) @
     map (\<lambda>i. (i, TeamB)) (filter (\<lambda>i. alive (teamB ts ! i)) [0..<length (teamB ts)])"

definition compareTurn :: "BattleTeams \<Rightarrow> entry \<Rightarrow> entry \<Rightarrow> int \<Rightarrow> number \<times> int" where
  "compareTurn ts a b g =
     (if speed (base (fighterOf ts a)) \<noteq> speed (base (fighterOf ts b))
      then (speed (base (fighterOf ts b)) - speed (base (fighterOf ts a)), g)
      else let (rollA, g1) = rng_next g;
               (rollB, g2) = rng_next g1
           in (rollB - rollA, g2))"

text \<open>
  \<open>Array.prototype.sort\<close> is the host's routine.  ECMAScript fixes neither the algorithm
  nor the sequence of comparator calls; it is modelled as a stable insertion sort that calls
  the comparator with the element being inserted first, and places it before the first
  element for which the comparator is negative.  The comparator threads the generator.
\<close>

fun insertSorted ::
  "('a \<Rightarrow> 'a \<Rightarrow> int \<Rightarrow> number \<times> int) \<Rightarrow> 'a \<Rightarrow> 'a list \<Rightarrow> int \<Rightarrow> 'a list \<times> int" where
  "insertSorted cmp x [] g = ([x], g)"
| "insertSorted cmp x (y # ys) g =
     (let (v, g1) = cmp x y g
      in if v < 0 then (x # y # ys, g1)
         else let (zs, g2) = insertSorted cmp x ys g1 in (y # zs, g2))"

fun sortInto ::
  "('a \<Rightarrow> 'a \<Rightarrow> int \<Rightarrow> number \<times> int) \<Rightarrow> 'a list \<Rightarrow> 'a list \<Rightarrow> int \<Rightarrow> 'a list \<times> int" where
  "sortInto cmp [] acc g = (acc, g)"
| "sortInto cmp (x # xs) acc g =
     (let (acc', g') = insertSorted cmp x acc g in sortInto cmp xs acc' g')"

definition array_sort ::
  "('a \<Rightarrow> 'a \<Rightarrow> int \<Rightarrow> number \<times> int) \<Rightarrow> 'a list \<Rightarrow> int \<Rightarrow> 'a list \<times> int" where
  "array_sort cmp xs g = sortInto cmp xs [] g"

subsection \<open>One turn\<close>

definition opponentTeam :: "team \<Rightarrow> team" where
  "opponentTeam t = (case t of TeamA \<Rightarrow> TeamB | TeamB \<Rightarrow> TeamA)"

definition setTeam :: "team \<Rightarrow> InternalFighter list \<Rightarrow> BattleTeams \<Rightarrow> BattleTeams" where
  "setTeam t fs ts = (case t of TeamA \<Rightarrow> ts\<lparr>teamA := fs\<rparr> | TeamB \<Rightarrow> ts\<lparr>teamB := fs\<rparr>)"

definition teamLetter :: "team \<Rightarrow> jsstring" where
  "teamLetter t = (case t of TeamA \<Rightarrow> lit ''A'' | TeamB \<Rightarrow> lit ''B'')"

definition describe ::
  "Host \<Rightarrow> InternalFighter \<Rightarrow> team \<Rightarrow> InternalFighter \<Rightarrow> number \<Rightarrow> bool \<Rightarrow> jsstring" where
  "describe h fighter t tgt dmg crit =
     Character.name (base fighter) @ lit '' from Team '' @ teamLetter t @ lit '' hits '' @
     Character.name (base tgt) @ lit '' for '' @ Number_toString h dmg @ lit '' damage'' @
     (if crit then lit '' (CRIT)'' else []) @ lit ''.''"

text \<open>
  The body of the \<open>for\<close> loop from \<open>const beforeHp\<close> on, for the target at position \<open>j\<close> of
  the opponents.  The actor and the target are objects of different teams, so the actor's
  \<open>hp\<close> read for the event is the one before the attack.
\<close>

definition strike :: "Host \<Rightarrow> nat \<Rightarrow> entry \<Rightarrow> nat \<Rightarrow> Sim \<Rightarrow> Sim" where
  "strike h r e j st =
     (let t = snd e;
          fighter = fighterOf (teams st) e;
          opponents = teamOf (opponentTeam t) (teams st);
          tgt = opponents ! j;
          beforeHp = hp tgt;
          ((dmg, crit), g') = computeDamage (rng st) fighter tgt;
          hp1 = max 0 (hp tgt - dmg);
          tgt1 = tgt\<lparr>hp := hp1, alive := (if hp1 = 0 then False else alive tgt)\<rparr>;
          event =
            \<lparr>round' = r,
             actorTeam = t,
             actor = \<lparr>CharacterSnapshot.id' = Character.id' (base fighter),
                      CharacterSnapshot.name = Character.name (base fighter),
                      hpBefore = hp fighter, hpAfter = hp fighter\<rparr>,
             target = \<lparr>CharacterSnapshot.id' = Character.id' (base tgt),
                       CharacterSnapshot.name = Character.name (base tgt),
                       hpBefore = beforeHp, hpAfter = hp tgt1\<rparr>,
             damage = dmg,
             isCrit = crit,
             description = describe h fighter t tgt dmg crit\<rparr>
      in st\<lparr>rng := g',
            teams := setTeam (opponentTeam t) (opponents[j := tgt1]) (teams st),
            log' := log' st @ [event]\<rparr>)"

text \<open>\<open>if (!target) continue\<close>, then the attack.\<close>

definition resolveTarget :: "Host \<Rightarrow> nat \<Rightarrow> entry \<Rightarrow> nat option \<Rightarrow> Sim \<Rightarrow> Sim" where
  "resolveTarget h r e tgt st = (case tgt of None \<Rightarrow> st | Some j \<Rightarrow> strike h r e j st)"

datatype flow = Continue | Break

definition takeTurn :: "Host \<Rightarrow> nat \<Rightarrow> entry \<Rightarrow> Sim \<Rightarrow> flow \<times> Sim" where
  "takeTurn h r e st =
     (if \<not> alive (fighterOf (teams st) e) then (Continue, st)
      else let opponents = teamOf (opponentTeam (snd e)) (teams st)
           in if allDead opponents then (Break, st)
              else let (tgt, g') = chooseTarget (rng st) opponents
                   in (Continue, resolveTarget h r e tgt (st\<lparr>rng := g'\<rparr>)))"

fun turns :: "Host \<Rightarrow> nat \<Rightarrow> entry list \<Rightarrow> Sim \<Rightarrow> Sim" where
  "turns h r [] st = st"
| "turns h r (e # es) st =
     (case takeTurn h r e st of
        (Break, st') \<Rightarrow> st'
      | (Continue, st') \<Rightarrow> turns h r es st')"

subsection \<open>The round loop and the result\<close>

function roundLoop :: "Host \<Rightarrow> number \<Rightarrow> nat \<Rightarrow> Sim \<Rightarrow> nat \<times> Sim" where
  "roundLoop h maxR r st =
     (if of_nat r < maxR then
        let r1 = r + 1;
            fighters = collectFighters (teams st)
        in if length fighters = 0 then (r1, st)
           else let (order, g) = array_sort (compareTurn (teams st)) fighters (rng st);
                    st1 = turns h r1 order (st\<lparr>rng := g\<rparr>)
                in if allDead (teamA (teams st1)) \<or> allDead (teamB (teams st1))
                   then (r1, st1)
                   else roundLoop h maxR r1 st1
      else (r, st))"
  by pat_completeness auto
termination
proof -
  have below: "r < nat \<lceil>maxR\<rceil>" if "of_nat r < maxR" for r :: nat and maxR :: rat
  proof -
    from that have "(of_nat r :: rat) < of_int \<lceil>maxR\<rceil>"
      by (rule less_le_trans) (rule le_of_int_ceiling)
    then have "(of_int (int r) :: rat) < of_int \<lceil>maxR\<rceil>"
      by simp
    then have "int r < \<lceil>maxR\<rceil>"
      by (simp only: of_int_less_iff)
    then show ?thesis
      by simp
  qed
  show ?thesis
    by (relation "measure (\<lambda>(h, maxR, r, st). nat \<lceil>maxR\<rceil> - r)")
      (auto dest: below)
qed

declare roundLoop.simps [simp del]

definition sumHp :: "InternalFighter list \<Rightarrow> number" where
  "sumHp tm = foldl (\<lambda>sum f. sum + hp f) 0 tm"

definition resolveWinner :: "BattleTeams \<Rightarrow> winner" where
  "resolveWinner ts =
     (let teamADeadFinal = allDead (teamA ts);
          teamBDeadFinal = allDead (teamB ts)
      in if teamADeadFinal \<and> \<not> teamBDeadFinal then WinB
         else if \<not> teamADeadFinal \<and> teamBDeadFinal then WinA
         else let hpA = sumHp (teamA ts); hpB = sumHp (teamB ts)
              in if hpA > hpB then WinA else if hpB > hpA then WinB else DRAW)"

definition simulateBattle ::
  "Host \<Rightarrow> Character list \<Rightarrow> Character list \<Rightarrow> BattleConfig \<Rightarrow> BattleResult" where
  "simulateBattle h tA tB cfg =
     (let g = createDeterministicRng (seed cfg);
          ts = cloneTeams tA tB;
          (r, st) = roundLoop h (maxRounds cfg) 0 \<lparr>rng = g, teams = ts, log' = []\<rparr>
      in \<lparr>config = cfg,
          winner = resolveWinner (teams st),
          rounds = r,
          log' = Sim.log' st,
          finalState = \<lparr>FinalState.teamA = map snapshotFighter (teamA (teams st)),
                        FinalState.teamB = map snapshotFighter (teamB (teams st))\<rparr>,
          logHash = computeLogHash h (Sim.log' st)\<rparr>)"

definition createDefaultTeams :: "Character list \<times> Character list" where
  "createDefaultTeams =
     ([\<lparr>Character.id' = lit ''knight'', name = lit ''Aurora Knight'', maxHp = 120,
        attack = 24, defense = 16, speed = 8, critChance = 0.15, skillMultiplier = 1.4\<rparr>,
       \<lparr>Character.id' = lit ''archer'', name = lit ''Stellar Archer'', maxHp = 80,
        attack = 28, defense = 10, speed = 14, critChance = 0.25, skillMultiplier = 1.5\<rparr>],
      [\<lparr>Character.id' = lit ''orc'', name = lit ''Raiku Orc Brute'', maxHp = 140,
        attack = 22, defense = 14, speed = 7, critChance = 0.12, skillMultiplier = 1.3\<rparr>,
       \<lparr>Character.id' = lit ''mage'', name = lit ''Deterministic Mage'', maxHp = 70,
        attack = 30, defense = 8, speed = 12, critChance = 0.20, skillMultiplier = 1.6\<rparr>])"

text \<open>
  A host whose routines return constants, for running the engine on examples in which the
  strings play no part.
\<close>

definition plainHost :: Host where
  "plainHost =
     \<lparr>Number_toString = (\<lambda>n. []), JSON_stringify = (\<lambda>lg. []), sha256_utf8 = (\<lambda>s. 0)\<rparr>"

section \<open>Predicates of the specification\<close>

text \<open>
  The health bounds of a fighter, and the relation between the fields of an event, as the
  specification words them.
\<close>

definition fighterOk :: "InternalFighter \<Rightarrow> bool" where
  "fighterOk f \<longleftrightarrow> 0 \<le> hp f \<and> hp f \<le> maxHp (base f) \<and> (alive f \<longleftrightarrow> 0 < hp f)"

definition teamsOk :: "BattleTeams \<Rightarrow> bool" where
  "teamsOk ts \<longleftrightarrow> list_all fighterOk (teamA ts) \<and> list_all fighterOk (teamB ts)"


definition eventOk :: "BattleEvent \<Rightarrow> bool" where
  "eventOk ev \<longleftrightarrow>
     hpAfter (target ev) = max 0 (hpBefore (target ev) - damage ev) \<and>
     1 \<le> damage ev \<and> of_int \<lfloor>damage ev\<rfloor> = damage ev"

text \<open>
  The states that \<open>simulateBattle\<close> passes through between turns, and more: the state it
  starts from, any state reached by a turn of any entry in any round, and any state that
  differs from one of these in the generator only (the sort and the draws move it).
\<close>

inductive_set visited :: "Host \<Rightarrow> Character list \<Rightarrow> Character list \<Rightarrow> jsstring \<Rightarrow> Sim set"
  for h :: Host and tA :: "Character list" and tB :: "Character list" and sd :: jsstring
  where
    start: "\<lparr>rng = createDeterministicRng sd, teams = cloneTeams tA tB, log' = []\<rparr>
              \<in> visited h tA tB sd"
  | draw: "st \<in> visited h tA tB sd \<Longrightarrow> st\<lparr>rng := g\<rparr> \<in> visited h tA tB sd"
  | turn: "st \<in> visited h tA tB sd \<Longrightarrow> snd (takeTurn h r e st) \<in> visited h tA tB sd"

text \<open>
  The sort and the \<open>for\<close> loop of one round, named for the proofs: \<open>roundLoop\<close> is restated
  with it in \<open>roundLoop_unfold\<close>.
\<close>

definition playRound :: "Host \<Rightarrow> nat \<Rightarrow> Sim \<Rightarrow> Sim" where
  "playRound h r1 st =
     (let (order, g) = array_sort (compareTurn (teams st)) (collectFighters (teams st)) (rng st)
      in turns h r1 order (st\<lparr>rng := g\<rparr>))"

text \<open>An entry of the turn order points into its team.\<close>

definition entryIn :: "BattleTeams \<Rightarrow> entry \<Rightarrow> bool" where
  "entryIn ts e \<longleftrightarrow> fst e < length (teamOf (snd e) ts)"


text \<open>The configuration that \<open>index.ts\<close> uses when it is given no arguments.\<close>

definition demoConfig :: BattleConfig where
  "demoConfig = \<lparr>seed = lit ''RAIKU-DEMO-SEED-001'', maxRounds = 20\<rparr>"

section \<open>Properties of the generator\<close>

lemma mulberry32_range: "0 \<le> fst (mulberry32 a) \<and> fst (mulberry32 a) < 1"
proof -
  obtain w :: "32 word" where w: "fst (mulberry32 a) = of_int (uint w) / 4294967296"
    by (simp add: mulberry32_def Let_def)
  define x where "x = uint w"
  have x: "0 \<le> x" "x < 4294967296"
    using uint_bounded [of w] by (simp_all add: x_def)
  have v: "fst (mulberry32 a) = of_int x / 4294967296"
    unfolding x_def by (rule w)
  from x have "(0::rat) \<le> of_int x" "(of_int x :: rat) < 4294967296"
    by simp_all
  then show ?thesis
    unfolding v by simp
qed

lemma nextInt_range:
  assumes "0 < n"
  shows "0 \<le> fst (nextInt n g) \<and> fst (nextInt n g) < n \<and> fst (nextInt n g) \<in> \<int>"
proof -
  obtain r g' where m: "mulberry32 g = (r, g')" by (cases "mulberry32 g")
  with mulberry32_range [of g] have r: "0 \<le> r" "r < 1" by simp_all
  have v: "fst (nextInt n g) = of_int \<lfloor>r * n\<rfloor>"
    using assms m by (simp add: nextInt_def)
  have "0 \<le> r * n" using r assms by simp
  then have lo: "(0::rat) \<le> of_int \<lfloor>r * n\<rfloor>" by simp
  have "r * n < n" using r assms by simp
  moreover have "of_int \<lfloor>r * n\<rfloor> \<le> r * n" by simp
  ultimately have hi: "(of_int \<lfloor>r * n\<rfloor> :: rat) < n" by linarith
  show ?thesis using lo hi v by simp
qed

lemma after_draws_Suc: "after_draws (Suc k) g = snd (rng_next (after_draws k g))"
  by (simp add: after_draws_def)

lemma allDead_no_living:
  "allDead opponents \<Longrightarrow> filter (\<lambda>j. alive (opponents ! j)) [0..<length opponents] = []"
  by (simp add: allDead_def list_all_length filter_empty_conv)

text \<open>
  C9.  Whatever the seed (the empty string included) and however many values have been
  drawn before, \<open>next()\<close> lies in \<open>[0,1)\<close>.  In any state of the generator, \<open>nextInt n\<close> is
  an integer in \<open>[0,n)\<close> when \<open>n \<ge> 1\<close>, and is \<open>0\<close> with the generator untouched when
  \<open>n \<le> 0\<close>.  \<open>chooseTarget\<close> on opponents none of whom lives returns no target and draws
  nothing, and the caller leaves the simulation as it is on such a result.
\<close>

theorem generator_contract:
  "(0 \<le> fst (rng_next (after_draws k (createDeterministicRng sd))) \<and>
    fst (rng_next (after_draws k (createDeterministicRng sd))) < 1) \<and>
   (1 \<le> n \<longrightarrow> 0 \<le> fst (nextInt n g) \<and> fst (nextInt n g) < n \<and> fst (nextInt n g) \<in> \<int>) \<and>
   (m \<le> 0 \<longrightarrow> nextInt m g = (0, g)) \<and>
   (allDead opponents \<longrightarrow> chooseTarget g opponents = (None, g)) \<and>
   resolveTarget h r e None st = st"
proof (intro conjI impI)
  show "0 \<le> fst (rng_next (after_draws k (createDeterministicRng sd)))"
    and "fst (rng_next (after_draws k (createDeterministicRng sd))) < 1"
    using mulberry32_range by (simp_all add: rng_next_def)
next
  assume "1 \<le> n"
  then have "0 < n" by simp
  then show "0 \<le> fst (nextInt n g)" and "fst (nextInt n g) < n" and "fst (nextInt n g) \<in> \<int>"
    using nextInt_range [of n g] by simp_all
next
  assume "m \<le> 0"
  then show "nextInt m g = (0, g)"
    by (simp add: nextInt_def)
next
  assume "allDead opponents"
  then show "chooseTarget g opponents = (None, g)"
    by (simp add: chooseTarget_def allDead_no_living)
next
  show "resolveTarget h r e None st = st"
    by (simp add: resolveTarget_def)
qed

theorem generator_contract_witness:
  "(0 \<le> fst (rng_next (after_draws 7 (createDeterministicRng []))) \<and>
    fst (rng_next (after_draws 7 (createDeterministicRng []))) < 1) \<and>
   ((1::rat) \<le> 3 \<and> 0 \<le> fst (nextInt 3 5) \<and> fst (nextInt 3 5) < 3 \<and> fst (nextInt 3 5) \<in> \<int>) \<and>
   ((-2::rat) \<le> 0 \<and> nextInt (-2) 5 = (0, 5)) \<and>
   (allDead [\<lparr>base = snd createDefaultTeams ! 0, hp = 0, alive = False\<rparr>] \<and>
    chooseTarget 5 [\<lparr>base = snd createDefaultTeams ! 0, hp = 0, alive = False\<rparr>] = (None, 5)) \<and>
   resolveTarget plainHost 1 (0, TeamA) None \<lparr>rng = 5, teams = cloneTeams [] [], log' = []\<rparr> =
     \<lparr>rng = 5, teams = cloneTeams [] [], log' = []\<rparr>"
  using generator_contract [of 7 "[]" 3 5 "-2"
      "[\<lparr>base = snd createDefaultTeams ! 0, hp = 0, alive = False\<rparr>]"
      plainHost 1 "(0, TeamA)" "\<lparr>rng = 5, teams = cloneTeams [] [], log' = []\<rparr>"]
  by (simp add: allDead_def)

section \<open>Properties of the combat resolver\<close>

lemma after_draws_unfold:
  "after_draws 0 g = g"
  "after_draws (Suc 0) g = snd (rng_next g)"
  "after_draws 1 g = snd (rng_next g)"
  "after_draws 2 g = snd (rng_next (snd (rng_next g)))"
  "after_draws 3 g = snd (rng_next (snd (rng_next (snd (rng_next g)))))"
  by (simp_all add: after_draws_def eval_nat_numeral)


section \<open>Properties of the trace commitment\<close>

lemma nibble_bound: "unat (x AND (15 :: 256 word)) < 16"
proof -
  have "unat (x AND 15) \<le> unat (15 :: 256 word)"
    using word_and_le1 [of x 15] by (simp only: word_le_nat_alt)
  also have "\<dots> < 16"
    by simp
  finally show ?thesis .
qed

lemma length_lit: "length (lit s) = length s"
  by (simp add: lit_def)

lemma length_digestHex: "length (digestHex w) = 64"
  by (simp add: digestHex_def)

lemma set_digestHex: "set (digestHex w) \<subseteq> set (lit ''0123456789abcdef'')"
proof
  fix c
  assume "c \<in> set (digestHex w)"
  then obtain i where c: "c = lit ''0123456789abcdef'' ! unat (drop_bit (4 * i) w AND 15)"
    by (auto simp: digestHex_def)
  have "unat (drop_bit (4 * i) w AND 15) < length (lit ''0123456789abcdef'')"
    using nibble_bound [of "drop_bit (4 * i) w"] by (simp add: length_lit)
  then show "c \<in> set (lit ''0123456789abcdef'')"
    unfolding c by (rule nth_mem)
qed

lemma simulateBattle_fields:
  "BattleResult.log' (simulateBattle h tA tB cfg) =
     Sim.log' (snd (roundLoop h (maxRounds cfg) 0
       \<lparr>rng = createDeterministicRng (seed cfg), teams = cloneTeams tA tB, log' = []\<rparr>))"
  "rounds (simulateBattle h tA tB cfg) =
     fst (roundLoop h (maxRounds cfg) 0
       \<lparr>rng = createDeterministicRng (seed cfg), teams = cloneTeams tA tB, log' = []\<rparr>)"
  "winner (simulateBattle h tA tB cfg) =
     resolveWinner (teams (snd (roundLoop h (maxRounds cfg) 0
       \<lparr>rng = createDeterministicRng (seed cfg), teams = cloneTeams tA tB, log' = []\<rparr>)))"
  "finalState (simulateBattle h tA tB cfg) =
     (let ts = teams (snd (roundLoop h (maxRounds cfg) 0
        \<lparr>rng = createDeterministicRng (seed cfg), teams = cloneTeams tA tB, log' = []\<rparr>))
      in \<lparr>FinalState.teamA = map snapshotFighter (teamA ts),
          FinalState.teamB = map snapshotFighter (teamB ts)\<rparr>)"
  "logHash (simulateBattle h tA tB cfg) =
     computeLogHash h (BattleResult.log' (simulateBattle h tA tB cfg))"
  "config (simulateBattle h tA tB cfg) = cfg"
  by (simp_all add: simulateBattle_def Let_def split_beta)

text \<open>
  C4.  The digest stored in a result is the digest of the result's own log: serializing
  \<open>result.log\<close> with \<open>JSON.stringify\<close> and hashing the text with SHA-256 gives
  \<open>result.logHash\<close> again.  The digest is written with 64 characters, each one of
  \<open>0123456789abcdef\<close>.
\<close>

theorem digest_binding:
  "logHash (simulateBattle h tA tB cfg) =
     digestHex (sha256_utf8 h (JSON_stringify h (BattleResult.log' (simulateBattle h tA tB cfg)))) \<and>
   length (logHash (simulateBattle h tA tB cfg)) = 64 \<and>
   set (logHash (simulateBattle h tA tB cfg)) \<subseteq> set (lit ''0123456789abcdef'')"
  by (simp add: simulateBattle_fields(5) computeLogHash_def length_digestHex set_digestHex)

section \<open>Winner resolution\<close>






section \<open>One turn\<close>

lemma teamOf_setTeam:
  "teamOf t (setTeam t fs ts) = fs"
  "teamOf t (setTeam (opponentTeam t) fs ts) = teamOf t ts"
  "teamOf (opponentTeam t) (setTeam t fs ts) = teamOf (opponentTeam t) ts"
  by (cases t; simp add: teamOf_def setTeam_def opponentTeam_def)+

lemma opponentTeam_twice: "opponentTeam (opponentTeam t) = t"
  by (cases t) (simp_all add: opponentTeam_def)

lemma teamsOk_teamOf: "teamsOk ts \<longleftrightarrow> list_all fighterOk (teamOf TeamA ts) \<and> list_all fighterOk (teamOf TeamB ts)"
  by (simp add: teamsOk_def teamOf_def)

lemma teamsOk_sides:
  "teamsOk ts \<longleftrightarrow> list_all fighterOk (teamOf t ts) \<and> list_all fighterOk (teamOf (opponentTeam t) ts)"
  by (cases t) (auto simp: teamsOk_teamOf opponentTeam_def)

lemma computeDamage_damage:
  "1 \<le> fst (fst (computeDamage g a d))"
  "of_int \<lfloor>fst (fst (computeDamage g a d))\<rfloor> = fst (fst (computeDamage g a d))"
  "\<exists>n. fst (fst (computeDamage g a d)) = of_int n"
proof -
  obtain x :: rat where x: "fst (fst (computeDamage g a d)) = max 1 (of_int \<lfloor>x\<rfloor>)"
    by (simp add: computeDamage_def Let_def split_beta)
  show "1 \<le> fst (fst (computeDamage g a d))"
    unfolding x by simp
  have "max (1::rat) (of_int \<lfloor>x\<rfloor>) = of_int (max 1 \<lfloor>x\<rfloor>)"
    by (simp add: max_def)
  then show "of_int \<lfloor>fst (fst (computeDamage g a d))\<rfloor> = fst (fst (computeDamage g a d))"
    and "\<exists>n. fst (fst (computeDamage g a d)) = of_int n"
    unfolding x by (simp only: floor_of_int, blast)
qed

lemma computeDamage_rng: "snd (computeDamage g a d) = after_draws 3 g"
  by (simp add: computeDamage_def after_draws_unfold Let_def split_beta)

lemma chooseTarget_living:
  assumes "\<not> allDead opponents"
  shows "\<exists>j. chooseTarget g opponents = (Some j, snd (rng_next g)) \<and>
             j < length opponents \<and> alive (opponents ! j)"
proof -
  define living where "living = filter (\<lambda>j. alive (opponents ! j)) [0..<length opponents]"
  from assms have "living \<noteq> []"
    by (auto simp: living_def allDead_def list_all_length filter_empty_conv)
  then have pos: "(0::rat) < of_nat (length living)"
    by simp
  define idx where "idx = fst (nextInt (of_nat (length living)) g)"
  from nextInt_range [OF pos, of g]
  have idx: "0 \<le> idx" "idx < of_nat (length living)" "idx \<in> \<int>"
    by (simp_all add: idx_def)
  from idx(3) obtain z :: int where z: "idx = of_int z"
    by (auto elim: Ints_cases)
  from idx(1,2) have zr: "0 \<le> z" "nat z < length living"
    unfolding z by simp_all
  have sel: "js_index living idx = Some (living ! nat z)"
    using zr by (simp add: js_index_def z)
  have g': "snd (nextInt (of_nat (length living)) g) = snd (rng_next g)"
    using pos by (simp add: nextInt_def rng_next_def split_beta)
  have "living ! nat z \<in> set living"
    using zr(2) by (rule nth_mem)
  then have mem: "living ! nat z < length opponents" "alive (opponents ! (living ! nat z))"
    by (simp_all add: living_def)
  have "chooseTarget g opponents = (Some (living ! nat z), snd (rng_next g))"
    using \<open>living \<noteq> []\<close> sel g'
    by (simp add: chooseTarget_def living_def [symmetric] idx_def [symmetric] split_beta)
  with mem show ?thesis
    by blast
qed

lemma strike_log:
  "\<exists>ev. Sim.log' (strike h r e j st) = Sim.log' st @ [ev] \<and> round' ev = r \<and>
        actorTeam ev = snd e \<and> eventOk ev"
  by (simp add: strike_def Let_def split_beta eventOk_def computeDamage_damage)

lemma strike_own_team:
  "teamOf (snd e) (teams (strike h r e j st)) = teamOf (snd e) (teams st)"
  by (simp add: strike_def Let_def split_beta teamOf_setTeam)

lemma strike_opponents:
  "\<exists>d\<ge>1. teamOf (opponentTeam (snd e)) (teams (strike h r e j st)) =
     (teamOf (opponentTeam (snd e)) (teams st))
       [j := (teamOf (opponentTeam (snd e)) (teams st) ! j)
          \<lparr>hp := max 0 (hp (teamOf (opponentTeam (snd e)) (teams st) ! j) - d),
           alive := (if max 0 (hp (teamOf (opponentTeam (snd e)) (teams st) ! j) - d) = 0
                     then False
                     else alive (teamOf (opponentTeam (snd e)) (teams st) ! j))\<rparr>]"
  (is "\<exists>d\<ge>1. ?P d")
proof -
  define d where
    "d = fst (fst (computeDamage (rng st) (fighterOf (teams st) e)
           (teamOf (opponentTeam (snd e)) (teams st) ! j)))"
  have "1 \<le> d"
    unfolding d_def by (rule computeDamage_damage)
  moreover have "?P d"
    by (simp add: strike_def Let_def split_beta teamOf_setTeam d_def)
  ultimately show ?thesis
    by blast
qed

lemma fighterOk_hit:
  assumes "fighterOk f" and "alive f" and "0 \<le> d"
  shows "fighterOk (f\<lparr>hp := max 0 (hp f - d),
                      alive := (if max 0 (hp f - d) = 0 then False else alive f)\<rparr>)"
  using assms by (auto simp: fighterOk_def max_def)

lemma list_all_update:
  "list_all P xs \<Longrightarrow> j < length xs \<Longrightarrow> P y \<Longrightarrow> list_all P (xs[j := y])"
  by (auto simp: list_all_length nth_list_update)

lemma strike_teamsOk:
  assumes ok: "teamsOk (teams st)"
    and j: "j < length (teamOf (opponentTeam (snd e)) (teams st))"
    and a: "alive (teamOf (opponentTeam (snd e)) (teams st) ! j)"
  shows "teamsOk (teams (strike h r e j st))"
proof -
  let ?opps = "teamOf (opponentTeam (snd e)) (teams st)"
  from ok have own: "list_all fighterOk (teamOf (snd e) (teams st))"
    and opp: "list_all fighterOk ?opps"
    by (simp_all add: teamsOk_sides [of _ "snd e"])
  from opp j have t: "fighterOk (?opps ! j)"
    by (simp add: list_all_length)
  from strike_opponents [of e h r j st] obtain d where d: "1 \<le> d"
    and upd: "teamOf (opponentTeam (snd e)) (teams (strike h r e j st)) =
      ?opps[j := (?opps ! j)\<lparr>hp := max 0 (hp (?opps ! j) - d),
        alive := (if max 0 (hp (?opps ! j) - d) = 0 then False else alive (?opps ! j))\<rparr>]"
    by blast
  from d have "0 \<le> d" by simp
  with t a have "fighterOk ((?opps ! j)\<lparr>hp := max 0 (hp (?opps ! j) - d),
        alive := (if max 0 (hp (?opps ! j) - d) = 0 then False else alive (?opps ! j))\<rparr>)"
    by (rule fighterOk_hit)
  with opp j have "list_all fighterOk (teamOf (opponentTeam (snd e)) (teams (strike h r e j st)))"
    unfolding upd by (rule list_all_update)
  moreover have "list_all fighterOk (teamOf (snd e) (teams (strike h r e j st)))"
    using own by (simp add: strike_own_team)
  ultimately show ?thesis
    by (simp add: teamsOk_sides [of _ "snd e"])
qed

text \<open>The three ways a turn can go.\<close>

lemma takeTurn_cases:
  obtains (skip) "\<not> alive (fighterOf (teams st) e)" "takeTurn h r e st = (Continue, st)"
  | (stop) "alive (fighterOf (teams st) e)"
      "allDead (teamOf (opponentTeam (snd e)) (teams st))" "takeTurn h r e st = (Break, st)"
  | (hit) j where "alive (fighterOf (teams st) e)"
      "\<not> allDead (teamOf (opponentTeam (snd e)) (teams st))"
      "j < length (teamOf (opponentTeam (snd e)) (teams st))"
      "alive (teamOf (opponentTeam (snd e)) (teams st) ! j)"
      "takeTurn h r e st = (Continue, strike h r e j (st\<lparr>rng := snd (rng_next (rng st))\<rparr>))"
proof (cases "alive (fighterOf (teams st) e)")
  case False
  then show ?thesis
    by (intro skip) (simp_all add: takeTurn_def)
next
  case live: True
  show ?thesis
  proof (cases "allDead (teamOf (opponentTeam (snd e)) (teams st))")
    case True
    with live show ?thesis
      by (intro stop) (simp_all add: takeTurn_def)
  next
    case False
    from chooseTarget_living [OF False, of "rng st"] obtain j
      where c: "chooseTarget (rng st) (teamOf (opponentTeam (snd e)) (teams st)) =
          (Some j, snd (rng_next (rng st)))"
        and j: "j < length (teamOf (opponentTeam (snd e)) (teams st))"
          "alive (teamOf (opponentTeam (snd e)) (teams st) ! j)"
      by blast
    have "takeTurn h r e st = (Continue, strike h r e j (st\<lparr>rng := snd (rng_next (rng st))\<rparr>))"
      using live False c by (simp add: takeTurn_def resolveTarget_def)
    with live False j show ?thesis
      by (intro hit)
  qed
qed

lemma takeTurn_teamsOk:
  assumes "teamsOk (teams st)"
  shows "teamsOk (teams (snd (takeTurn h r e st)))"
proof (cases rule: takeTurn_cases [of st e h r])
  case skip
  with assms show ?thesis by simp
next
  case stop
  with assms show ?thesis by simp
next
  case (hit j)
  have "teamsOk (teams (strike h r e j (st\<lparr>rng := snd (rng_next (rng st))\<rparr>)))"
    by (rule strike_teamsOk) (use assms hit in simp_all)
  with hit show ?thesis by simp
qed

lemma takeTurn_log:
  "\<exists>evs. Sim.log' (snd (takeTurn h r e st)) = Sim.log' st @ evs \<and>
         list_all (\<lambda>ev. round' ev = r \<and> eventOk ev) evs \<and>
         (evs \<noteq> [] \<longrightarrow> alive (fighterOf (teams st) e))"
proof (cases rule: takeTurn_cases [of st e h r])
  case skip
  then show ?thesis by simp
next
  case stop
  then show ?thesis by simp
next
  case (hit j)
  from strike_log [of h r e j "st\<lparr>rng := snd (rng_next (rng st))\<rparr>"] hit show ?thesis
    by auto
qed

section \<open>The turns of a round\<close>

lemma turns_Cons:
  "turns h r (e # es) st =
     (if fst (takeTurn h r e st) = Break then snd (takeTurn h r e st)
      else turns h r es (snd (takeTurn h r e st)))"
  by (cases "takeTurn h r e st"; cases "fst (takeTurn h r e st)") simp_all

declare turns.simps(2) [simp del]

lemma turns_teamsOk: "teamsOk (teams st) \<Longrightarrow> teamsOk (teams (turns h r es st))"
proof (induction es arbitrary: st)
  case Nil
  then show ?case by simp
next
  case (Cons e es)
  from Cons.prems have "teamsOk (teams (snd (takeTurn h r e st)))"
    by (rule takeTurn_teamsOk)
  with Cons.IH show ?case
    by (simp add: turns_Cons)
qed


lemma turns_log:
  "\<exists>evs. Sim.log' (turns h r es st) = Sim.log' st @ evs \<and>
         list_all (\<lambda>ev. round' ev = r \<and> eventOk ev) evs"
proof (induction es arbitrary: st)
  case Nil
  then show ?case by simp
next
  case (Cons e es)
  from takeTurn_log [of h r e st] obtain evs1
    where 1: "Sim.log' (snd (takeTurn h r e st)) = Sim.log' st @ evs1"
      "list_all (\<lambda>ev. round' ev = r \<and> eventOk ev) evs1"
    by blast
  from Cons.IH [of "snd (takeTurn h r e st)"] obtain evs2
    where 2: "Sim.log' (turns h r es (snd (takeTurn h r e st))) =
        Sim.log' (snd (takeTurn h r e st)) @ evs2"
      "list_all (\<lambda>ev. round' ev = r \<and> eventOk ev) evs2"
    by blast
  show ?case
  proof (cases "fst (takeTurn h r e st) = Break")
    case True
    with 1 show ?thesis
      by (auto simp: turns_Cons)
  next
    case False
    with 1 2 have "Sim.log' (turns h r (e # es) st) = Sim.log' st @ (evs1 @ evs2)"
      "list_all (\<lambda>ev. round' ev = r \<and> eventOk ev) (evs1 @ evs2)"
      by (simp_all add: turns_Cons)
    then show ?thesis
      by blast
  qed
qed

text \<open>Once the fighters of a team are all dead, the turns that remain change nothing.\<close>

lemma turns_dead_team:
  assumes "allDead (teamOf t (teams st))" and "list_all (entryIn (teams st)) es"
  shows "turns h r es st = st"
  using assms(2)
proof (induction es)
  case Nil
  then show ?case by simp
next
  case (Cons e es)
  from Cons.prems have e: "entryIn (teams st) e" and es: "list_all (entryIn (teams st)) es"
    by simp_all
  have "snd (takeTurn h r e st) = st"
  proof (cases rule: takeTurn_cases [of st e h r])
    case skip
    then show ?thesis by simp
  next
    case stop
    then show ?thesis by simp
  next
    case (hit j)
    show ?thesis
    proof (cases "snd e = t")
      case True
      with e assms(1) have "\<not> alive (fighterOf (teams st) e)"
        by (simp add: entryIn_def fighterOf_def allDead_def list_all_length)
      with hit(1) show ?thesis by simp
    next
      case False
      then have "opponentTeam (snd e) = t"
        by (cases t; cases "snd e") (simp_all add: opponentTeam_def)
      with assms(1) hit(2) show ?thesis by simp
    qed
  qed
  with Cons.IH [OF es] show ?case
    by (simp add: turns_Cons)
qed

text \<open>A living fighter with a living opponent, first in the order, leaves an event.\<close>

lemma turns_first_hits:
  assumes "alive (fighterOf (teams st) e)"
    and "\<not> allDead (teamOf (opponentTeam (snd e)) (teams st))"
  shows "length (Sim.log' st) < length (Sim.log' (turns h r (e # es) st))"
proof (cases rule: takeTurn_cases [of st e h r])
  case skip
  with assms show ?thesis by simp
next
  case stop
  with assms show ?thesis by simp
next
  case (hit j)
  let ?st1 = "strike h r e j (st\<lparr>rng := snd (rng_next (rng st))\<rparr>)"
  from strike_log [of h r e j "st\<lparr>rng := snd (rng_next (rng st))\<rparr>"]
  have "length (Sim.log' ?st1) = Suc (length (Sim.log' st))"
    by auto
  moreover from turns_log [of h r es ?st1]
  have "length (Sim.log' ?st1) \<le> length (Sim.log' (turns h r es ?st1))"
    by auto
  ultimately show ?thesis
    using hit(5) by (simp add: turns_Cons)
qed

section \<open>Turn order\<close>

lemma insertSorted_mset: "mset (fst (insertSorted cmp x ys g)) = add_mset x (mset ys)"
  by (induction ys arbitrary: g) (simp_all add: split_beta Let_def)


lemma sortInto_mset: "mset (fst (sortInto cmp xs acc g)) = mset xs + mset acc"
  by (induction xs arbitrary: acc g) (simp_all add: split_beta insertSorted_mset)

lemma array_sort_mset: "mset (fst (array_sort cmp xs g)) = mset xs"
  by (simp add: array_sort_def sortInto_mset)

lemma array_sort_set: "set (fst (array_sort cmp xs g)) = set xs"
  using array_sort_mset [of cmp xs g] by (rule mset_eq_setD)











lemma collectFighters_member:
  "e \<in> set (collectFighters ts) \<Longrightarrow> entryIn ts e \<and> alive (fighterOf ts e)"
  by (auto simp: collectFighters_def entryIn_def fighterOf_def teamOf_def)

lemma collectFighters_empty:
  "collectFighters ts = [] \<longleftrightarrow> allDead (teamA ts) \<and> allDead (teamB ts)"
  by (auto simp: collectFighters_def allDead_def list_all_length filter_empty_conv)

lemma playRound_eq:
  "playRound h r1 st =
     turns h r1 (fst (array_sort (compareTurn (teams st)) (collectFighters (teams st)) (rng st)))
       (st\<lparr>rng := snd (array_sort (compareTurn (teams st)) (collectFighters (teams st))
                        (rng st))\<rparr>)"
  by (simp add: playRound_def split_beta)







section \<open>The round loop\<close>

lemma roundLoop_unfold:
  "roundLoop h maxR r st =
     (if of_nat r < maxR then
        if collectFighters (teams st) = [] then (Suc r, st)
        else if allDead (teamA (teams (playRound h (Suc r) st))) \<or>
                allDead (teamB (teams (playRound h (Suc r) st)))
             then (Suc r, playRound h (Suc r) st)
             else roundLoop h maxR (Suc r) (playRound h (Suc r) st)
      else (r, st))"
  by (subst roundLoop.simps) (simp add: playRound_def Let_def split_beta)

lemma rounds_left:
  assumes "of_nat r < (maxR :: rat)"
  shows "nat \<lceil>maxR\<rceil> - Suc r < nat \<lceil>maxR\<rceil> - r"
proof -
  from assms have "(of_nat r :: rat) < of_int \<lceil>maxR\<rceil>"
    by (rule less_le_trans) (rule le_of_int_ceiling)
  then have "(of_int (int r) :: rat) < of_int \<lceil>maxR\<rceil>"
    by simp
  then have "int r < \<lceil>maxR\<rceil>"
    by (simp only: of_int_less_iff)
  then show ?thesis
    by linarith
qed

lemma roundLoop_rounds_induct [case_names round]:
  assumes "\<And>r st.
    (of_nat r < (maxR :: rat) \<Longrightarrow> collectFighters (teams st) \<noteq> [] \<Longrightarrow>
     \<not> allDead (teamA (teams (playRound h (Suc r) st))) \<Longrightarrow>
     \<not> allDead (teamB (teams (playRound h (Suc r) st))) \<Longrightarrow>
     P (Suc r) (playRound h (Suc r) st)) \<Longrightarrow> P r st"
  shows "P r st"
proof (induction "nat \<lceil>maxR\<rceil> - r" arbitrary: r st rule: less_induct)
  case (less r st)
  have "P (Suc r) (playRound h (Suc r) st)" if "of_nat r < maxR"
  proof -
    from that have "nat \<lceil>maxR\<rceil> - Suc r < nat \<lceil>maxR\<rceil> - r"
      by (rule rounds_left)
    then show ?thesis
      by (rule less.hyps)
  qed
  then show ?case
    by (rule assms)
qed



lemma roundLoop_bound:
  "r \<le> n \<Longrightarrow> fst (roundLoop h (of_nat n) r st) \<le> n"
proof (induction r st rule: roundLoop_rounds_induct [where h = h and maxR = "of_nat n"])
  case (round r st)
  show ?case
  proof (cases "r < n")
    case True
    with round.IH show ?thesis
      by (subst roundLoop_unfold) simp
  next
    case False
    then show ?thesis
      using round.prems by (subst roundLoop_unfold) simp
  qed
qed

lemma playRound_dead_team:
  assumes "allDead (teamOf t (teams st))"
  shows "playRound h r1 st =
    st\<lparr>rng := snd (array_sort (compareTurn (teams st)) (collectFighters (teams st)) (rng st))\<rparr>"
proof -
  have "list_all (entryIn (teams st))
      (fst (array_sort (compareTurn (teams st)) (collectFighters (teams st)) (rng st)))"
    by (simp add: list_all_iff array_sort_set collectFighters_member)
  then show ?thesis
    unfolding playRound_eq using assms by (intro turns_dead_team [where t = t]) simp_all
qed

lemma roundLoop_dead_team:
  assumes "allDead (teamOf t (teams st))"
  shows "Sim.log' (snd (roundLoop h maxR r st)) = Sim.log' st \<and>
         teams (snd (roundLoop h maxR r st)) = teams st"
proof -
  from assms have "allDead (teamA (teams st)) \<or> allDead (teamB (teams st))"
    by (cases t) (simp_all add: teamOf_def)
  then show ?thesis
    by (subst (1 2) roundLoop_unfold) (auto simp: playRound_dead_team [OF assms])
qed

lemma playRound_log:
  "\<exists>evs. Sim.log' (playRound h r1 st) = Sim.log' st @ evs \<and>
         list_all (\<lambda>ev. round' ev = r1 \<and> eventOk ev) evs \<and>
         (\<not> allDead (teamA (teams st)) \<and> \<not> allDead (teamB (teams st)) \<longrightarrow> evs \<noteq> [])"
proof -
  let ?sorted = "array_sort (compareTurn (teams st)) (collectFighters (teams st)) (rng st)"
  let ?st = "st\<lparr>rng := snd ?sorted\<rparr>"
  from turns_log [of h r1 "fst ?sorted" ?st] obtain evs
    where evs: "Sim.log' (playRound h r1 st) = Sim.log' st @ evs"
      "list_all (\<lambda>ev. round' ev = r1 \<and> eventOk ev) evs"
    by (auto simp: playRound_eq)
  have "evs \<noteq> []"
    if live: "\<not> allDead (teamA (teams st))" "\<not> allDead (teamB (teams st))"
  proof -
    from live have "collectFighters (teams st) \<noteq> []"
      by (simp add: collectFighters_empty)
    then have "set (fst ?sorted) \<noteq> {}"
      by (simp add: array_sort_set)
    then obtain e es where order: "fst ?sorted = e # es"
      by (cases "fst ?sorted") simp_all
    then have "e \<in> set (fst ?sorted)"
      by simp
    then have "e \<in> set (collectFighters (teams st))"
      by (simp add: array_sort_set)
    then have "alive (fighterOf (teams ?st) e)"
      by (simp add: collectFighters_member)
    moreover from live have "\<not> allDead (teamOf (opponentTeam (snd e)) (teams ?st))"
      by (cases "snd e") (simp_all add: opponentTeam_def teamOf_def)
    ultimately have "length (Sim.log' ?st) < length (Sim.log' (turns h r1 (e # es) ?st))"
      by (rule turns_first_hits)
    then have "length (Sim.log' st) < length (Sim.log' (playRound h r1 st))"
      by (simp add: playRound_eq order)
    with evs(1) show ?thesis
      by auto
  qed
  with evs show ?thesis
    by blast
qed

lemma same_round_sorted:
  "list_all (\<lambda>ev. round' ev = c \<and> Q ev) evs \<Longrightarrow> sorted (map round' evs)"
  by (induction evs) (auto simp: list_all_iff)

lemma roundLoop_log:
  "\<exists>evs. Sim.log' (snd (roundLoop h maxR r st)) = Sim.log' st @ evs \<and>
         sorted (map round' evs) \<and>
         (\<forall>ev\<in>set evs. r < round' ev \<and> round' ev \<le> fst (roundLoop h maxR r st)) \<and>
         r \<le> fst (roundLoop h maxR r st) \<and>
         (\<not> allDead (teamA (teams st)) \<and> \<not> allDead (teamB (teams st)) \<longrightarrow>
            round' ` set evs = {r<..fst (roundLoop h maxR r st)})"
  (is "\<exists>evs. ?P r st evs")
proof (induction r st rule: roundLoop_rounds_induct [where h = h and maxR = maxR])
  case (round r st)
  let ?st1 = "playRound h (Suc r) st"
  from playRound_log [of h "Suc r" st] obtain evs1
    where evs1: "Sim.log' ?st1 = Sim.log' st @ evs1"
      "list_all (\<lambda>ev. round' ev = Suc r \<and> eventOk ev) evs1"
      "\<not> allDead (teamA (teams st)) \<and> \<not> allDead (teamB (teams st)) \<longrightarrow> evs1 \<noteq> []"
    by blast
  from evs1(2) have rounds1: "\<forall>ev\<in>set evs1. round' ev = Suc r"
    by (simp add: list_all_iff)
  from evs1(2) have sorted1: "sorted (map round' evs1)"
    by (rule same_round_sorted)
  consider (over) "\<not> of_nat r < maxR"
    | (empty) "of_nat r < maxR" "collectFighters (teams st) = []"
    | (last) "of_nat r < maxR" "collectFighters (teams st) \<noteq> []"
        "allDead (teamA (teams ?st1)) \<or> allDead (teamB (teams ?st1))"
    | (more) "of_nat r < maxR" "collectFighters (teams st) \<noteq> []"
        "\<not> allDead (teamA (teams ?st1))" "\<not> allDead (teamB (teams ?st1))"
    by blast
  then show ?case
  proof cases
    case over
    then have "roundLoop h maxR r st = (r, st)"
      by (subst roundLoop_unfold) simp
    then have "?P r st []"
      by simp
    then show ?thesis ..
  next
    case empty
    then have "roundLoop h maxR r st = (Suc r, st)"
      by (subst roundLoop_unfold) simp
    moreover from empty(2) have "allDead (teamA (teams st)) \<and> allDead (teamB (teams st))"
      by (simp add: collectFighters_empty)
    ultimately have "?P r st []"
      by simp
    then show ?thesis ..
  next
    case last
    then have res: "roundLoop h maxR r st = (Suc r, ?st1)"
      by (subst roundLoop_unfold) auto
    have "round' ` set evs1 = {r<..Suc r}"
      if "\<not> allDead (teamA (teams st)) \<and> \<not> allDead (teamB (teams st))"
    proof -
      from that evs1(3) have "evs1 \<noteq> []" by blast
      with rounds1 have "round' ` set evs1 = {Suc r}"
        by (cases evs1) auto
      then show ?thesis
        by auto
    qed
    with evs1(1) sorted1 rounds1 have "?P r st evs1"
      by (simp add: res)
    then show ?thesis ..
  next
    case more
    then have res: "roundLoop h maxR r st = roundLoop h maxR (Suc r) ?st1"
      by (subst roundLoop_unfold) simp
    let ?r' = "fst (roundLoop h maxR (Suc r) ?st1)"
    from round.IH [OF more] obtain evs2 where evs2: "?P (Suc r) ?st1 evs2"
      by blast
    then have r': "Suc r \<le> ?r'"
      and rounds2: "\<forall>ev\<in>set evs2. Suc r < round' ev \<and> round' ev \<le> ?r'"
      and sorted2: "sorted (map round' evs2)"
      and log2: "Sim.log' (snd (roundLoop h maxR (Suc r) ?st1)) = Sim.log' ?st1 @ evs2"
      by simp_all
    from evs2 more(3,4) have set2: "round' ` set evs2 = {Suc r<..?r'}"
      by simp
    have live: "\<not> allDead (teamA (teams st))" "\<not> allDead (teamB (teams st))"
      using more(3,4) playRound_dead_team [of TeamA st h "Suc r"]
        playRound_dead_team [of TeamB st h "Suc r"]
      by (auto simp: teamOf_def)
    with evs1(3) have "evs1 \<noteq> []"
      by blast
    with rounds1 have set1: "round' ` set evs1 = {Suc r}"
      by (cases evs1) auto
    have "Sim.log' (snd (roundLoop h maxR r st)) = Sim.log' st @ (evs1 @ evs2)"
      by (simp add: res log2 evs1(1))
    moreover have "sorted (map round' (evs1 @ evs2))"
      using sorted1 sorted2 rounds1 rounds2 by (auto simp: sorted_append)
    moreover have "\<forall>ev\<in>set (evs1 @ evs2). r < round' ev \<and> round' ev \<le> ?r'"
      using rounds1 rounds2 r' by auto
    moreover have "round' ` set (evs1 @ evs2) = {r<..?r'}"
      using set1 set2 r' by (auto simp: image_Un)
    ultimately have "?P r st (evs1 @ evs2)"
      using r' by (simp add: res)
    then show ?thesis ..
  qed
qed

section \<open>The battle as a whole\<close>

lemma cloneTeams_allDead:
  "allDead (teamA (cloneTeams tA tB)) \<longleftrightarrow> tA = []"
  "allDead (teamB (cloneTeams tA tB)) \<longleftrightarrow> tB = []"
  by (cases tA; simp add: cloneTeams_def allDead_def)
    (cases tB; simp add: cloneTeams_def allDead_def)


lemma roundLoop_enters:
  assumes "0 < maxR"
  shows "1 \<le> fst (roundLoop h maxR 0 st)"
proof -
  have "Suc 0 \<le> fst (roundLoop h maxR (Suc 0) st')" for st'
    using roundLoop_log [of h maxR "Suc 0" st'] by blast
  with assms show ?thesis
    by (subst roundLoop_unfold) simp
qed


lemma battle_rounds:
  "sorted (map round' (BattleResult.log' (simulateBattle h tA tB cfg)))"
  "\<forall>ev\<in>set (BattleResult.log' (simulateBattle h tA tB cfg)).
     1 \<le> round' ev \<and> round' ev \<le> rounds (simulateBattle h tA tB cfg)"
  "tA \<noteq> [] \<Longrightarrow> tB \<noteq> [] \<Longrightarrow>
     round' ` set (BattleResult.log' (simulateBattle h tA tB cfg)) =
       {1..rounds (simulateBattle h tA tB cfg)}"
proof -
  let ?st0 = "\<lparr>rng = createDeterministicRng (seed cfg), teams = cloneTeams tA tB, log' = []\<rparr>"
  from roundLoop_log [of h "maxRounds cfg" 0 ?st0] obtain evs
    where evs: "Sim.log' (snd (roundLoop h (maxRounds cfg) 0 ?st0)) = evs"
      "sorted (map round' evs)"
      "\<forall>ev\<in>set evs. 0 < round' ev \<and> round' ev \<le> fst (roundLoop h (maxRounds cfg) 0 ?st0)"
      "tA \<noteq> [] \<and> tB \<noteq> [] \<longrightarrow>
         round' ` set evs = {0<..fst (roundLoop h (maxRounds cfg) 0 ?st0)}"
    by (auto simp: cloneTeams_allDead)
  show "sorted (map round' (BattleResult.log' (simulateBattle h tA tB cfg)))"
    using evs(1,2) by (simp add: simulateBattle_fields)
  show "\<forall>ev\<in>set (BattleResult.log' (simulateBattle h tA tB cfg)).
     1 \<le> round' ev \<and> round' ev \<le> rounds (simulateBattle h tA tB cfg)"
    using evs(1,3) by (auto simp: simulateBattle_fields)
  show "round' ` set (BattleResult.log' (simulateBattle h tA tB cfg)) =
       {1..rounds (simulateBattle h tA tB cfg)}" if "tA \<noteq> []" "tB \<noteq> []"
    using evs(1,4) that
    by (simp add: simulateBattle_fields flip: atLeastSucAtMost_greaterThanAtMost)
qed


lemma battle_empty_side:
  assumes "tA = [] \<or> tB = []"
  shows "BattleResult.log' (simulateBattle h tA tB cfg) = []"
proof -
  let ?st0 = "\<lparr>rng = createDeterministicRng (seed cfg), teams = cloneTeams tA tB, log' = []\<rparr>"
  from assms
  have "allDead (teamOf TeamA (teams ?st0)) \<or> allDead (teamOf TeamB (teams ?st0))"
    by (auto simp: teamOf_def cloneTeams_allDead)
  then obtain t where "allDead (teamOf t (teams ?st0))"
    by blast
  then have "Sim.log' (snd (roundLoop h (maxRounds cfg) 0 ?st0)) = Sim.log' ?st0"
    using roundLoop_dead_team by blast
  then show ?thesis
    by (simp add: simulateBattle_fields)
qed







text \<open>
  C8.  Let \<open>maxRounds\<close> be a positive integer \<open>n\<close>.  The round loop is a total function (its
  termination is proved with the measure \<open>ceiling maxRounds - round\<close>), so the simulation
  returns.  The count of rounds returned is the number of times the loop body ran; it is at
  least 1 and at most \<open>n\<close>.  The round numbers of the events never decrease along the log
  and lie between 1 and the count; when neither input team is empty they are exactly the
  numbers from 1 to the count, so the counter starts at 1 and grows by 1 with each round;
  when an input team is empty the log is empty.  From a state in which the fighters of a
  team are all dead, neither the turns that remain in the round nor the rounds that follow
  append an event: no later event has that team, or any team, as \<open>actorTeam\<close>.
\<close>

theorem rounds_bounded:
  assumes "maxRounds cfg = of_nat n" and "0 < n"
  shows "1 \<le> rounds (simulateBattle h tA tB cfg) \<and>
         rounds (simulateBattle h tA tB cfg) \<le> n \<and>
         sorted (map round' (BattleResult.log' (simulateBattle h tA tB cfg))) \<and>
         list_all (\<lambda>ev. 1 \<le> round' ev \<and> round' ev \<le> rounds (simulateBattle h tA tB cfg))
           (BattleResult.log' (simulateBattle h tA tB cfg)) \<and>
         (tA \<noteq> [] \<and> tB \<noteq> [] \<longrightarrow>
            round' ` set (BattleResult.log' (simulateBattle h tA tB cfg)) =
              {1..rounds (simulateBattle h tA tB cfg)}) \<and>
         (tA = [] \<or> tB = [] \<longrightarrow> BattleResult.log' (simulateBattle h tA tB cfg) = []) \<and>
         (allDead (teamOf t (teams st)) \<and> list_all (entryIn (teams st)) es \<longrightarrow>
            turns h r es st = st) \<and>
         (allDead (teamOf t (teams st)) \<longrightarrow>
            Sim.log' (snd (roundLoop h mr r st)) = Sim.log' st)"
proof (intro conjI impI)
  let ?st0 = "\<lparr>rng = createDeterministicRng (seed cfg), teams = cloneTeams tA tB, log' = []\<rparr>"
  from assms(2) have "(0::rat) < of_nat n"
    by simp
  then show "1 \<le> rounds (simulateBattle h tA tB cfg)"
    unfolding simulateBattle_fields assms(1) by (rule roundLoop_enters)
  show "rounds (simulateBattle h tA tB cfg) \<le> n"
    unfolding simulateBattle_fields assms(1) by (rule roundLoop_bound) simp
  show "sorted (map round' (BattleResult.log' (simulateBattle h tA tB cfg)))"
    by (rule battle_rounds)
  show "list_all (\<lambda>ev. 1 \<le> round' ev \<and> round' ev \<le> rounds (simulateBattle h tA tB cfg))
      (BattleResult.log' (simulateBattle h tA tB cfg))"
    using battle_rounds(2) [of h tA tB cfg] by (simp add: list_all_iff)
next
  assume "tA \<noteq> [] \<and> tB \<noteq> []"
  then show "round' ` set (BattleResult.log' (simulateBattle h tA tB cfg)) =
      {1..rounds (simulateBattle h tA tB cfg)}"
    by (simp add: battle_rounds(3))
next
  assume "tA = [] \<or> tB = []"
  then show "BattleResult.log' (simulateBattle h tA tB cfg) = []"
    by (rule battle_empty_side)
next
  assume "allDead (teamOf t (teams st)) \<and> list_all (entryIn (teams st)) es"
  then show "turns h r es st = st"
    using turns_dead_team [of t st es h r] by blast
next
  assume "allDead (teamOf t (teams st))"
  then show "Sim.log' (snd (roundLoop h mr r st)) = Sim.log' st"
    by (simp add: roundLoop_dead_team)
qed

theorem rounds_bounded_witness:
  "maxRounds demoConfig = of_nat 20 \<and> (0::nat) < 20 \<and>
   1 \<le> rounds (simulateBattle plainHost (fst createDefaultTeams) (snd createDefaultTeams) demoConfig) \<and>
   rounds (simulateBattle plainHost (fst createDefaultTeams) (snd createDefaultTeams) demoConfig) \<le> 20 \<and>
   sorted (map round' (BattleResult.log'
     (simulateBattle plainHost (fst createDefaultTeams) (snd createDefaultTeams) demoConfig))) \<and>
   (fst createDefaultTeams \<noteq> [] \<and> snd createDefaultTeams \<noteq> []) \<and>
   round' ` set (BattleResult.log'
     (simulateBattle plainHost (fst createDefaultTeams) (snd createDefaultTeams) demoConfig)) =
     {1..rounds (simulateBattle plainHost (fst createDefaultTeams) (snd createDefaultTeams) demoConfig)} \<and>
   BattleResult.log' (simulateBattle plainHost [] (snd createDefaultTeams) demoConfig) = [] \<and>
   (allDead (teamOf TeamA (cloneTeams [] (snd createDefaultTeams))) \<and>
    list_all (entryIn (cloneTeams [] (snd createDefaultTeams))) [(0, TeamB)]) \<and>
   turns plainHost 1 [(0, TeamB)]
     \<lparr>rng = 5, teams = cloneTeams [] (snd createDefaultTeams), log' = []\<rparr> =
     \<lparr>rng = 5, teams = cloneTeams [] (snd createDefaultTeams), log' = []\<rparr> \<and>
   Sim.log' (snd (roundLoop plainHost 20 1
     \<lparr>rng = 5, teams = cloneTeams [] (snd createDefaultTeams), log' = []\<rparr>)) = []"
proof -
  have cfg: "maxRounds demoConfig = of_nat 20" "(0::nat) < 20"
    by (simp_all add: demoConfig_def)
  have ne: "fst createDefaultTeams \<noteq> [] \<and> snd createDefaultTeams \<noteq> []"
    by (simp add: createDefaultTeams_def)
  have dead: "allDead (teamOf TeamA (cloneTeams [] (snd createDefaultTeams))) \<and>
      list_all (entryIn (cloneTeams [] (snd createDefaultTeams))) [(0, TeamB)]"
    by (simp add: allDead_def teamOf_def cloneTeams_def entryIn_def createDefaultTeams_def)
  note full = rounds_bounded [OF cfg, where h = plainHost and tA = "fst createDefaultTeams"
      and tB = "snd createDefaultTeams" and t = TeamA
      and st = "\<lparr>rng = 5, teams = cloneTeams [] (snd createDefaultTeams), log' = []\<rparr>"
      and es = "[(0, TeamB)]" and r = 1 and mr = 20]
  note half = rounds_bounded [OF cfg, where h = plainHost and tA = "[]"
      and tB = "snd createDefaultTeams" and t = TeamA
      and st = "\<lparr>rng = 5, teams = cloneTeams [] (snd createDefaultTeams), log' = []\<rparr>"
      and es = "[]" and r = 1 and mr = 20]
  from half have "BattleResult.log' (simulateBattle plainHost [] (snd createDefaultTeams) demoConfig) = []"
    by simp
  with full cfg ne dead show ?thesis
    by simp
qed

section \<open>Empty teams and a round limit that is not positive\<close>

lemma cloneTeams_empty: "cloneTeams [] [] = \<lparr>teamA = [], teamB = []\<rparr>"
  by (simp add: cloneTeams_def)

lemma roundLoop_no_fighters:
  assumes "collectFighters (teams st) = []"
  shows "roundLoop h maxR 0 st = (if 0 < maxR then 1 else 0, st)"
  using assms by (subst roundLoop_unfold) simp

lemma empty_battle:
  "rounds (simulateBattle h [] [] cfg) = (if 0 < maxRounds cfg then 1 else 0)"
  "BattleResult.log' (simulateBattle h [] [] cfg) = []"
  "winner (simulateBattle h [] [] cfg) = DRAW"
proof -
  let ?st0 = "\<lparr>rng = createDeterministicRng (seed cfg), teams = cloneTeams [] [], log' = []\<rparr>"
  have "collectFighters (teams ?st0) = []"
    by (simp add: cloneTeams_empty collectFighters_def)
  then have loop: "roundLoop h (maxRounds cfg) 0 ?st0 = (if 0 < maxRounds cfg then 1 else 0, ?st0)"
    by (rule roundLoop_no_fighters)
  show "rounds (simulateBattle h [] [] cfg) = (if 0 < maxRounds cfg then 1 else 0)"
    by (simp add: simulateBattle_fields loop)
  show "BattleResult.log' (simulateBattle h [] [] cfg) = []"
    by (simp add: simulateBattle_fields loop)
  show "winner (simulateBattle h [] [] cfg) = DRAW"
    unfolding simulateBattle_fields(3) loop
    by (simp add: cloneTeams_empty resolveWinner_def allDead_def sumHp_def)
qed

text \<open>
  C6, as the code has it.  With both input teams empty the log is empty and the result is a
  draw.  The loop counts a round before it looks for living fighters: when \<open>maxRounds\<close> is
  positive the body is entered once, finds no fighter and leaves the loop, and the count
  returned is 1; the count is 0 only when \<open>maxRounds\<close> is not positive.
\<close>

theorem empty_teams:
  "rounds (simulateBattle h [] [] cfg) = (if 0 < maxRounds cfg then 1 else 0) \<and>
   BattleResult.log' (simulateBattle h [] [] cfg) = [] \<and>
   winner (simulateBattle h [] [] cfg) = DRAW"
  by (simp add: empty_battle)

theorem empty_teams_witness:
  "rounds (simulateBattle plainHost [] [] demoConfig) = 1 \<and>
   BattleResult.log' (simulateBattle plainHost [] [] demoConfig) = [] \<and>
   winner (simulateBattle plainHost [] [] demoConfig) = DRAW"
  using empty_teams [of plainHost demoConfig] by (simp add: demoConfig_def)

text \<open>
  The claim as it was stated says that the count returned is 0.  With the configuration of
  the command line it is 1.
\<close>

theorem empty_teams_counterexample:
  "rounds (simulateBattle plainHost [] [] demoConfig) = 1 \<and>
   rounds (simulateBattle plainHost [] [] demoConfig) \<noteq> 0"
  by (simp add: empty_battle(1) demoConfig_def)







section \<open>The templates stay as they were given\<close>









section \<open>Determinism\<close>



end
